theory Spec2Isabelle
  imports Main "HOL-Library.Sublist"
begin

section \<open>Shared envelope types (types.go)\<close>

text \<open>
  The Go structs become records. Go's \<open>int\<close> and \<open>int64\<close> fields are modelled as
  \<open>int\<close>: the code only compares and copies them, it performs no arithmetic that could
  wrap. Strings are byte strings. A \<open>*Style\<close> pointer is a \<open>Style option\<close>
  (\<open>nil\<close> is \<open>None\<close>). Field names that occur in more than one struct carry a prefix.
\<close>

definition DefaultMaxLines :: int where
  "DefaultMaxLines = 10000"

record Style =
  FG :: string
  BG :: string
  Attrs :: string

record CounterSpec =
  cs_Match :: string
  cs_CaseSensitive :: bool
  Label :: string
  WindowSeconds :: int

record HighlightSpec =
  hl_Match :: string
  hl_CaseSensitive :: bool
  hl_Style :: "Style option"

record Config =
  MaxLines :: int
  Counters :: "CounterSpec list"
  Highlights :: "HighlightSpec list"

record Meta =
  meta_Type :: string
  meta_MaxLines :: int
  meta_Counters :: "CounterSpec list"
  meta_Highlights :: "HighlightSpec list"

record Line =
  line_Type :: string
  TsUs :: int
  Text :: string
  Level :: string

record Notice =
  notice_Type :: string
  notice_Text :: string

definition EffectiveMaxLines :: "Config \<Rightarrow> int" where
  "EffectiveMaxLines c = (if MaxLines c \<le> 0 then DefaultMaxLines else MaxLines c)"

text \<open>
  The loop that copies a highlight rule and, when its style pointer is not nil, the style
  it points to. Values are immutable here, so the copy is the same value; the branch on nil
  is kept.
\<close>

definition copyHighlight :: "HighlightSpec \<Rightarrow> HighlightSpec" where
  "copyHighlight h =
     (case hl_Style h of None \<Rightarrow> h | Some st \<Rightarrow> h\<lparr>hl_Style := Some st\<rparr>)"

definition MakeMeta :: "Config \<Rightarrow> Meta" where
  "MakeMeta c =
     \<lparr>meta_Type = ''meta'',
      meta_MaxLines = EffectiveMaxLines c,
      meta_Counters = Counters c,
      meta_Highlights = map copyHighlight (Highlights c)\<rparr>"

definition LevelOf :: "string \<Rightarrow> string" where
  "LevelOf s = (if prefix ''ERROR: '' s then ''error'' else ''info'')"

section \<open>Encoded records\<close>

text \<open>
  \<open>json.Marshal\<close> belongs to the Go library. The bytes it produces for a \<open>Meta\<close>,
  \<open>Line\<close> or \<open>Notice\<close> value, followed by the newline the broker appends, are
  represented by the value itself: one constructor per struct that is marshalled. A nil
  \<open>[]byte\<close> (a ring slot never written) is \<open>None\<close> of \<open>bytes option\<close>.
\<close>

datatype bytes = MetaBytes Meta | LineBytes Line | NoticeBytes Notice

text \<open>\<open>fmt.Sprintf("%d", n)\<close> for a count that is never negative.\<close>

definition digit :: "nat \<Rightarrow> char" where
  "digit d = ''0123456789'' ! d"

fun fmt_d :: "nat \<Rightarrow> string" where
  "fmt_d n = (if n < 10 then [digit n] else fmt_d (n div 10) @ [digit (n mod 10)])"

declare fmt_d.simps [simp del]

definition lagNotice :: "nat \<Rightarrow> bytes" where
  "lagNotice dropped =
     NoticeBytes \<lparr>notice_Type = ''notice'',
       notice_Text = ''[viewer lagged; dropped '' @ fmt_d dropped @ '' lines]''\<rparr>"

section \<open>Broker state (broker.go)\<close>

text \<open>
  A client owns a connection handle and a buffered channel of capacity 512; the channel is
  the list of its queued items, oldest first. Client objects are shared between the
  registry and the session task, so they live in a store indexed by pointer, and the
  registry (a Go map used as a set) is a duplicate-free list of pointers. What the buffered
  writer has written and flushed to a connection, and whether the broker has closed a
  connection, are kept per connection handle.
\<close>

definition chanCap :: nat where
  "chanCap = 512"

definition maxClients :: nat where
  "maxClients = 5"

record client =
  conn :: nat
  ch :: "bytes list"

record BrokerOptions =
  opt_Config :: Config
  SocketCandidates :: "string list"

record Broker =
  cfg :: Config
  metaBuf :: bytes
  maxLines :: int
  clients :: "nat list"
  ring :: "bytes option list"
  head :: nat
  capacity :: nat
  running :: bool
  socketPath :: string
  socketCandidates :: "string list"
  store :: "nat \<Rightarrow> client option"
  nextPtr :: nat
  wire :: "nat \<Rightarrow> bytes list"
  connClosed :: "nat \<Rightarrow> bool"

definition NewBroker :: "BrokerOptions \<Rightarrow> Broker" where
  "NewBroker opts =
     (let c0 = \<lparr>MaxLines = MaxLines (opt_Config opts),
                Counters = Counters (opt_Config opts),
                Highlights = map copyHighlight (Highlights (opt_Config opts))\<rparr>;
          c = (if MaxLines c0 \<le> 0 then c0\<lparr>MaxLines := DefaultMaxLines\<rparr> else c0);
          size = EffectiveMaxLines c
      in \<lparr>cfg = c,
          metaBuf = MetaBytes (MakeMeta c),
          maxLines = size,
          clients = [],
          ring = replicate (nat size) None,
          head = 0,
          capacity = nat size,
          running = False,
          socketPath = [],
          socketCandidates = SocketCandidates opts,
          store = (\<lambda>_. None),
          nextPtr = 0,
          wire = (\<lambda>_. []),
          connClosed = (\<lambda>_. False)\<rparr>)"

text \<open>
  \<open>Start\<close> and \<open>Stop\<close>. Binding the listener is done by the operating system; its outcome
  (the bound path, or no usable path) is an argument. \<open>Stop\<close> closes the connection of every
  registered client and empties the registry.
\<close>

datatype error = Error string

definition Start :: "Broker \<Rightarrow> string option \<Rightarrow> Broker \<times> error option" where
  "Start s bound =
     (case bound of
        None \<Rightarrow> (s, Some (Error ''console broker: no usable UNIX socket path''))
      | Some path \<Rightarrow> (s\<lparr>running := True, socketPath := path\<rparr>, None))"

definition closeClient :: "Broker \<Rightarrow> nat \<Rightarrow> Broker" where
  "closeClient s p =
     (case store s p of
        None \<Rightarrow> s
      | Some cli \<Rightarrow> s\<lparr>connClosed := (connClosed s)(conn cli := True)\<rparr>)"

definition Stop :: "Broker \<Rightarrow> Broker" where
  "Stop s =
     (let s1 = s\<lparr>running := False, socketPath := []\<rparr>
      in (foldl closeClient s1 (clients s1))\<lparr>clients := []\<rparr>)"

subsection \<open>Channel sends\<close>

text \<open>
  \<open>trySend\<close> is the non-blocking send: it succeeds when the channel has room. \<open>safeSend\<close>
  sends when there is room and otherwise receives one item from the channel front and
  then sends; both of its branches return nil.
\<close>

definition trySend :: "client \<Rightarrow> bytes \<Rightarrow> client \<times> bool" where
  "trySend cli buf =
     (if length (ch cli) < chanCap then (cli\<lparr>ch := ch cli @ [buf]\<rparr>, True)
      else (cli, False))"

definition safeSend :: "client \<Rightarrow> bytes \<Rightarrow> client \<times> error option" where
  "safeSend cli buf =
     (if length (ch cli) < chanCap then (cli\<lparr>ch := ch cli @ [buf]\<rparr>, None)
      else (cli\<lparr>ch := tl (ch cli) @ [buf]\<rparr>, None))"

subsection \<open>Insert and fan-out\<close>

text \<open>
  \<open>enqueue\<close> writes the slot at \<open>head\<close> and advances \<open>head\<close>. An index outside the ring
  and a zero modulus are run-time panics in Go: the result is \<open>None\<close> then.
\<close>

definition enqueue :: "Broker \<Rightarrow> bytes \<Rightarrow> Broker option" where
  "enqueue s buf =
     (if head s < length (ring s) then
        (if capacity s = 0 then None
         else Some (s\<lparr>ring := (ring s)[head s := Some buf],
                      head := (head s + 1) mod capacity s\<rparr>))
      else None)"

text \<open>
  The inner loop of \<open>broadcast\<close>: while the channel is full, receive one item and count it.
\<close>

function evict :: "bytes list \<Rightarrow> nat \<Rightarrow> bytes list \<times> nat" where
  "evict q dropped =
     (if length q = chanCap then evict (tl q) (dropped + 1) else (q, dropped))"
  by pat_completeness auto
termination
  by (relation "measure (\<lambda>(q, dropped). length q)") (auto simp: chanCap_def)

declare evict.simps [simp del]

definition broadcastClient :: "bytes \<Rightarrow> client \<Rightarrow> client" where
  "broadcastClient buf cli =
     (case trySend cli buf of
        (c1, True) \<Rightarrow> c1
      | (c1, False) \<Rightarrow>
          (let (q, dropped) = evict (ch c1) 0;
               c2 = fst (trySend (c1\<lparr>ch := q\<rparr>) buf)
           in if dropped > 0 then fst (trySend c2 (lagNotice dropped)) else c2))"

definition updClient :: "Broker \<Rightarrow> nat \<Rightarrow> (client \<Rightarrow> client) \<Rightarrow> Broker" where
  "updClient s p f =
     (case store s p of
        None \<Rightarrow> s
      | Some cli \<Rightarrow> s\<lparr>store := (store s)(p \<mapsto> f cli)\<rparr>)"

definition broadcast :: "Broker \<Rightarrow> bytes \<Rightarrow> Broker" where
  "broadcast s buf = foldl (\<lambda>t p. updClient t p (broadcastClient buf)) s (clients s)"

definition lineBytes :: "int \<Rightarrow> string \<Rightarrow> bytes" where
  "lineBytes when line =
     LineBytes \<lparr>line_Type = ''line'', TsUs = when, Text = line, Level = LevelOf line\<rparr>"

definition appendWithWhen :: "Broker \<Rightarrow> int \<Rightarrow> string \<Rightarrow> Broker option" where
  "appendWithWhen s when line =
     (let buf = lineBytes when line
      in case enqueue s buf of None \<Rightarrow> None | Some s1 \<Rightarrow> Some (broadcast s1 buf))"

text \<open>\<open>Append\<close> reads the clock; the time read is the argument \<open>now\<close>.\<close>

definition Append :: "Broker \<Rightarrow> int \<Rightarrow> string \<Rightarrow> Broker option" where
  "Append s now line = appendWithWhen s now line"

subsection \<open>Sessions\<close>

text \<open>
  \<open>handleNewClient\<close> up to the start of the session task: the admission test, the
  allocation of the client and its registration. The result names the new client, or is
  \<open>None\<close> when the connection was closed instead.
\<close>

definition handleNewClient :: "Broker \<Rightarrow> nat \<Rightarrow> Broker \<times> nat option" where
  "handleNewClient s c =
     (if length (clients s) \<ge> maxClients then
        (s\<lparr>connClosed := (connClosed s)(c := True)\<rparr>, None)
      else
        (let p = nextPtr s;
             cli = \<lparr>conn = c, ch = []\<rparr>
         in (s\<lparr>store := (store s)(p \<mapsto> cli),
                nextPtr := Suc p,
                clients := List.insert p (clients s)\<rparr>, Some p)))"

text \<open>The deferred function of the session task: unregister and close.\<close>

definition sessionExit :: "Broker \<Rightarrow> nat \<Rightarrow> Broker" where
  "sessionExit s p = closeClient (s\<lparr>clients := removeAll p (clients s)\<rparr>) p"

definition sendMeta :: "Broker \<Rightarrow> nat \<Rightarrow> Broker \<times> error option" where
  "sendMeta s p =
     (case store s p of
        None \<Rightarrow> (s, None)
      | Some cli \<Rightarrow>
          (let (cli', err) = safeSend cli (metaBuf s)
           in (s\<lparr>store := (store s)(p \<mapsto> cli')\<rparr>, err)))"

text \<open>
  The loop of \<open>replay\<close> over \<open>i = 0, ..., capacity - 1\<close>. Reading a slot outside the ring
  is a panic.
\<close>

fun replayLoop :: "Broker \<Rightarrow> nat list \<Rightarrow> client \<Rightarrow> client option" where
  "replayLoop s [] cli = Some cli"
| "replayLoop s (i # is) cli =
     (let idx = (head s + i) mod capacity s
      in if idx < length (ring s) then
           (case ring s ! idx of
              None \<Rightarrow> replayLoop s is cli
            | Some buf \<Rightarrow> replayLoop s is (fst (safeSend cli buf)))
         else None)"

definition replay :: "Broker \<Rightarrow> nat \<Rightarrow> Broker option" where
  "replay s p =
     (case store s p of
        None \<Rightarrow> Some s
      | Some cli \<Rightarrow>
          (case replayLoop s [0..<capacity s] cli of
             None \<Rightarrow> None
           | Some cli' \<Rightarrow> Some (s\<lparr>store := (store s)(p \<mapsto> cli')\<rparr>)))"

text \<open>
  The session task before its drain loop: send the meta record; if that reports an error,
  leave through the deferred function; otherwise replay.
\<close>

definition sessionStart :: "Broker \<Rightarrow> nat \<Rightarrow> Broker option" where
  "sessionStart s p =
     (case sendMeta s p of
        (s1, Some e) \<Rightarrow> Some (sessionExit s1 p)
      | (s1, None) \<Rightarrow> replay s1 p)"

text \<open>
  One iteration of the drain loop: receive the front item, write and flush it. Whether
  the transport accepts the write is the argument \<open>ok\<close>; on failure the task leaves
  through the deferred function. With an empty channel the task waits.
\<close>

definition drainStep :: "Broker \<Rightarrow> nat \<Rightarrow> bool \<Rightarrow> Broker" where
  "drainStep s p ok =
     (case store s p of
        None \<Rightarrow> s
      | Some cli \<Rightarrow>
          (case ch cli of
             [] \<Rightarrow> s
           | msg # rest \<Rightarrow>
               (let s1 = s\<lparr>store := (store s)(p \<mapsto> cli\<lparr>ch := rest\<rparr>)\<rparr>
                in if ok then s1\<lparr>wire := (wire s1)(conn cli := wire s1 (conn cli) @ [msg])\<rparr>
                   else sessionExit s1 p)))"

definition drain :: "Broker \<Rightarrow> nat \<Rightarrow> bool list \<Rightarrow> Broker" where
  "drain s p oks = foldl (\<lambda>t ok. drainStep t p ok) s oks"

subsection \<open>Schedules\<close>

text \<open>
  The broker's tasks interleave at the granularity of the sections guarded by the ring
  lock and of single channel operations. A schedule is a list of such steps, in the order
  in which they take effect.
\<close>

datatype step =
    DoEnqueue bytes
  | DoBroadcast bytes
  | DoAppend int string
  | DoConnect nat
  | DoSendMeta nat
  | DoReplay nat
  | DoSessionStart nat
  | DoDrain nat bool
  | DoSessionExit nat
  | DoStart "string option"
  | DoStop

fun exec :: "Broker \<Rightarrow> step \<Rightarrow> Broker option" where
  "exec s (DoEnqueue buf) = enqueue s buf"
| "exec s (DoBroadcast buf) = Some (broadcast s buf)"
| "exec s (DoAppend when line) = appendWithWhen s when line"
| "exec s (DoConnect c) = Some (fst (handleNewClient s c))"
| "exec s (DoSendMeta p) = Some (fst (sendMeta s p))"
| "exec s (DoReplay p) = replay s p"
| "exec s (DoSessionStart p) = sessionStart s p"
| "exec s (DoDrain p ok) = Some (drainStep s p ok)"
| "exec s (DoSessionExit p) = Some (sessionExit s p)"
| "exec s (DoStart bound) = Some (fst (Start s bound))"
| "exec s DoStop = Some (Stop s)"

fun run :: "Broker \<Rightarrow> step list \<Rightarrow> Broker option" where
  "run s [] = Some s"
| "run s (x # xs) = (case exec s x of None \<Rightarrow> None | Some s1 \<Rightarrow> run s1 xs)"

text \<open>Appending a list of timestamped lines, one call after the other.\<close>

fun appendAll :: "Broker \<Rightarrow> (int \<times> string) list \<Rightarrow> Broker option" where
  "appendAll s [] = Some s"
| "appendAll s ((when, line) # xs) =
     (case appendWithWhen s when line of None \<Rightarrow> None | Some s1 \<Rightarrow> appendAll s1 xs)"

text \<open>
  A connection that is admitted, whose session task sends the meta record and replays,
  and whose drain loop then writes \<open>n\<close> items without a transport error.
\<close>

definition connectSession :: "Broker \<Rightarrow> nat \<Rightarrow> nat \<Rightarrow> Broker option" where
  "connectSession s c n =
     (case handleNewClient s c of
        (s1, None) \<Rightarrow> Some s1
      | (s1, Some p) \<Rightarrow>
          (case sessionStart s1 p of
             None \<Rightarrow> None
           | Some s2 \<Rightarrow> Some (drain s2 p (replicate n True))))"

section \<open>The reader task of an attached viewer\<close>

text \<open>
  The loop inside \<open>Attach\<close> that reads newline-delimited records and feeds the local UI.
  \<open>json.Unmarshal\<close> is library code: its outcomes on a raw record (the type tag of the first
  decoding, and the full decodings) are given by a codec, with \<open>None\<close> for a decoding
  error. Each \<open>ReadBytes\<close> call yields a record or an error. The UI is the list of calls
  made on it; a line without a positive timestamp is shown with the time of arrival
  (\<open>None\<close>).
\<close>

record 'r codec =
  peekType :: "'r \<Rightarrow> string option"
  asMeta :: "'r \<Rightarrow> Meta option"
  asLine :: "'r \<Rightarrow> Line option"
  asNotice :: "'r \<Rightarrow> Notice option"

datatype 'r readResult = Data 'r | ReadErr

datatype uiCall =
    ApplyConfig Config
  | AppendWhen "int option" string
  | AppendText string
  | OnExit int

definition handleRecord :: "'r codec \<Rightarrow> 'r \<Rightarrow> uiCall list \<Rightarrow> uiCall list" where
  "handleRecord cd b ui =
     (case peekType cd b of
        None \<Rightarrow> ui
      | Some t \<Rightarrow>
          if t = ''meta'' then
            (case asMeta cd b of
               None \<Rightarrow> ui
             | Some m \<Rightarrow> ui @ [ApplyConfig \<lparr>MaxLines = meta_MaxLines m,
                                   Counters = meta_Counters m,
                                   Highlights = meta_Highlights m\<rparr>])
          else if t = ''line'' then
            (case asLine cd b of
               None \<Rightarrow> ui
             | Some ev \<Rightarrow>
                 ui @ [AppendWhen (if TsUs ev > 0 then Some (TsUs ev) else None) (Text ev)])
          else if t = ''notice'' then
            (case asNotice cd b of
               None \<Rightarrow> ui
             | Some n \<Rightarrow> ui @ [AppendText (notice_Text n)])
          else ui)"

text \<open>
  The result pairs the UI calls made with whether the task has returned. When the reads
  so far are used up the task is waiting in \<open>ReadBytes\<close> and has not returned.
\<close>

fun readLoop :: "'r codec \<Rightarrow> string \<Rightarrow> 'r readResult list \<Rightarrow> uiCall list \<Rightarrow> uiCall list \<times> bool"
  where
  "readLoop cd notice [] ui = (ui, False)"
| "readLoop cd notice (ReadErr # rest) ui = (ui @ [AppendText notice, OnExit 1], True)"
| "readLoop cd notice (Data b # rest) ui = readLoop cd notice rest (handleRecord cd b ui)"

section \<open>Abstractions used in the proofs\<close>

text \<open>The last \<open>n\<close> elements of a list.\<close>

definition lastn :: "nat \<Rightarrow> 'a list \<Rightarrow> 'a list" where
  "lastn n xs = drop (length xs - n) xs"

text \<open>
  The slots in the order in which \<open>replay\<close> visits them, and the records among them.
\<close>

definition replayOrder :: "Broker \<Rightarrow> bytes option list" where
  "replayOrder s = map (\<lambda>i. ring s ! ((head s + i) mod capacity s)) [0..<capacity s]"

definition history :: "Broker \<Rightarrow> bytes list" where
  "history s = List.map_filter id (replayOrder s)"

text \<open>The shape of the ring that \<open>NewBroker\<close> establishes and \<open>enqueue\<close> keeps.\<close>

definition ringOK :: "Broker \<Rightarrow> bool" where
  "ringOK s = (0 < capacity s \<and> length (ring s) = capacity s \<and> head s < capacity s)"

text \<open>The registry is a set of at most five clients.\<close>

definition regOK :: "Broker \<Rightarrow> bool" where
  "regOK s = (distinct (clients s) \<and> length (clients s) \<le> maxClients)"

text \<open>Guaranteed-delivery sends of a list of records, one after the other.\<close>

definition sendAll :: "client \<Rightarrow> bytes list \<Rightarrow> client" where
  "sendAll cli bs = foldl (\<lambda>c b. fst (safeSend c b)) cli bs"

text \<open>The encoded records of a list of timestamped lines.\<close>

definition linesOf :: "(int \<times> string) list \<Rightarrow> bytes list" where
  "linesOf xs = map (\<lambda>(when, line). lineBytes when line) xs"

section \<open>Example inputs\<close>

definition exOpts :: "int \<Rightarrow> BrokerOptions" where
  "exOpts n =
     \<lparr>opt_Config = \<lparr>MaxLines = n, Counters = [], Highlights = []\<rparr>, SocketCandidates = []\<rparr>"

definition exLines :: "nat \<Rightarrow> (int \<times> string) list" where
  "exLines k = map (\<lambda>i. (int i, ''x'')) [0..<k]"

definition exFull :: client where
  "exFull = \<lparr>conn = 7, ch = replicate 512 (lineBytes 0 ''x'')\<rparr>"

section \<open>Lemmas about queues and the ring\<close>

lemma lastn_length [simp]: "length (lastn n xs) = min n (length xs)"
  by (simp add: lastn_def)

lemma lastn_all: "length xs \<le> n \<Longrightarrow> lastn n xs = xs"
  by (simp add: lastn_def)

lemma lastn_snoc_full:
  "0 < n \<Longrightarrow> length q = n \<Longrightarrow> lastn n (q @ [b]) = tl q @ [b]"
  by (cases q) (simp_all add: lastn_def)

lemma lastn_lastn_append:
  "lastn n (lastn n xs @ ys) = lastn n (xs @ ys)"
proof (cases "length xs \<le> n")
  case True
  then show ?thesis by (simp add: lastn_all)
next
  case False
  then have "length xs + length ys - (length xs - n + n) + (length xs - n) = length xs + length ys - n"
    by arith
  then show ?thesis by (simp add: lastn_def)
qed

lemma lastn_map: "lastn n (map f xs) = map f (lastn n xs)"
  by (simp add: lastn_def drop_map)

lemma safeSend_ch:
  "length (ch cli) \<le> chanCap \<Longrightarrow> ch (fst (safeSend cli b)) = lastn chanCap (ch cli @ [b])"
  by (auto simp: safeSend_def lastn_all lastn_snoc_full chanCap_def)

lemma safeSend_conn [simp]: "conn (fst (safeSend cli b)) = conn cli"
  by (simp add: safeSend_def)

lemma safeSend_len: "length (ch cli) \<le> chanCap \<Longrightarrow> length (ch (fst (safeSend cli b))) \<le> chanCap"
  by (simp add: safeSend_ch)

lemma sendAll_ch:
  "length (ch cli) \<le> chanCap \<Longrightarrow> ch (sendAll cli bs) = lastn chanCap (ch cli @ bs)"
proof (induction bs arbitrary: cli)
  case Nil
  then show ?case by (simp add: sendAll_def lastn_all)
next
  case (Cons b bs)
  have "ch (sendAll (fst (safeSend cli b)) bs) = lastn chanCap (ch (fst (safeSend cli b)) @ bs)"
    using Cons.prems by (intro Cons.IH safeSend_len)
  also have "\<dots> = lastn chanCap ((ch cli @ [b]) @ bs)"
    using Cons.prems by (simp only: safeSend_ch lastn_lastn_append)
  finally show ?case by (simp add: sendAll_def)
qed

lemma sendAll_conn [simp]: "conn (sendAll cli bs) = conn cli"
  by (induction bs arbitrary: cli) (simp_all add: sendAll_def)

lemma replayLoop_eq:
  "length (ring s) = capacity s \<Longrightarrow> 0 < capacity s \<Longrightarrow>
   replayLoop s is cli =
     Some (sendAll cli (List.map_filter id (map (\<lambda>i. ring s ! ((head s + i) mod capacity s)) is)))"
proof (induction "is" arbitrary: cli)
  case Nil
  then show ?case by (simp add: sendAll_def List.map_filter_simps)
next
  case (Cons i "is")
  then show ?case
    by (simp add: sendAll_def List.map_filter_simps Let_def split: option.splits)
qed

lemma replay_eq:
  assumes "ringOK s" "store s p = Some cli"
  shows "replay s p = Some (s\<lparr>store := (store s)(p \<mapsto> sendAll cli (history s))\<rparr>)"
  using assms by (simp add: replay_def ringOK_def replayLoop_eq history_def replayOrder_def)

lemma replayOrder_rotate:
  "length (ring s) = capacity s \<Longrightarrow> replayOrder s = rotate (head s) (ring s)"
  by (auto simp: replayOrder_def list_eq_iff_nth_eq nth_rotate)

lemma rotate_update_step:
  assumes "h < length xs"
  shows "rotate ((h + 1) mod length xs) (xs[h := v]) = tl (rotate h xs) @ [v]"
proof -
  have "rotate ((h + 1) mod length xs) (xs[h := v]) = rotate (Suc h) (xs[h := v])"
    by (metis Suc_eq_plus1 length_list_update rotate_conv_mod)
  also have "\<dots> = rotate1 (rotate h (xs[h := v]))" by simp
  also have "rotate h (xs[h := v]) = (v # drop (Suc h) xs) @ take h xs"
    using assms by (simp add: rotate_drop_take drop_update_cancel upd_conv_take_nth_drop)
  also have "rotate1 \<dots> = (drop (Suc h) xs @ take h xs) @ [v]" by simp
  also have "drop (Suc h) xs @ take h xs = tl (rotate h xs)"
    using assms by (simp add: rotate_drop_take drop_Suc tl_drop)
  finally show ?thesis .
qed

lemma enqueue_ok:
  assumes "ringOK s"
  shows "\<exists>s'. enqueue s buf = Some s' \<and> ringOK s' \<and>
           replayOrder s' = lastn (capacity s) (replayOrder s @ [Some buf]) \<and>
           capacity s' = capacity s \<and> clients s' = clients s \<and> store s' = store s \<and>
           wire s' = wire s \<and> connClosed s' = connClosed s \<and> nextPtr s' = nextPtr s \<and>
           metaBuf s' = metaBuf s \<and>
           ring s' = (ring s)[head s := Some buf] \<and> head s' = (head s + 1) mod capacity s"
proof -
  let ?s' = "s\<lparr>ring := (ring s)[head s := Some buf], head := (head s + 1) mod capacity s\<rparr>"
  have e: "enqueue s buf = Some ?s'" using assms by (simp add: enqueue_def ringOK_def)
  have ok: "ringOK ?s'" using assms by (simp add: ringOK_def)
  have "replayOrder ?s' = rotate ((head s + 1) mod length (ring s)) ((ring s)[head s := Some buf])"
    using assms by (simp add: replayOrder_rotate ringOK_def)
  also have "\<dots> = tl (replayOrder s) @ [Some buf]"
    using assms rotate_update_step [of "head s" "ring s" "Some buf"]
    by (simp add: replayOrder_rotate ringOK_def)
  also have "\<dots> = lastn (capacity s) (replayOrder s @ [Some buf])"
    using assms by (simp add: lastn_snoc_full replayOrder_def ringOK_def)
  finally show ?thesis using e ok by simp
qed

section \<open>Lemmas about appending\<close>

lemma updClient_fields [simp]:
  "ring (updClient s p f) = ring s" "head (updClient s p f) = head s"
  "capacity (updClient s p f) = capacity s" "clients (updClient s p f) = clients s"
  "wire (updClient s p f) = wire s" "connClosed (updClient s p f) = connClosed s"
  "nextPtr (updClient s p f) = nextPtr s" "metaBuf (updClient s p f) = metaBuf s"
  "running (updClient s p f) = running s"
  by (simp_all add: updClient_def split: option.splits)

lemma foldl_updClient_fields:
  "ring (foldl (\<lambda>t p. updClient t p f) s ps) = ring s \<and>
   head (foldl (\<lambda>t p. updClient t p f) s ps) = head s \<and>
   capacity (foldl (\<lambda>t p. updClient t p f) s ps) = capacity s \<and>
   clients (foldl (\<lambda>t p. updClient t p f) s ps) = clients s \<and>
   wire (foldl (\<lambda>t p. updClient t p f) s ps) = wire s \<and>
   connClosed (foldl (\<lambda>t p. updClient t p f) s ps) = connClosed s \<and>
   nextPtr (foldl (\<lambda>t p. updClient t p f) s ps) = nextPtr s \<and>
   metaBuf (foldl (\<lambda>t p. updClient t p f) s ps) = metaBuf s \<and>
   running (foldl (\<lambda>t p. updClient t p f) s ps) = running s"
  by (induction ps arbitrary: s) simp_all

lemma broadcast_fields [simp]:
  "ring (broadcast s b) = ring s" "head (broadcast s b) = head s"
  "capacity (broadcast s b) = capacity s" "clients (broadcast s b) = clients s"
  "wire (broadcast s b) = wire s" "connClosed (broadcast s b) = connClosed s"
  "nextPtr (broadcast s b) = nextPtr s" "metaBuf (broadcast s b) = metaBuf s"
  "running (broadcast s b) = running s"
  by (simp_all add: broadcast_def foldl_updClient_fields)

lemma broadcast_no_clients: "clients s = [] \<Longrightarrow> broadcast s b = s"
  by (simp add: broadcast_def)

lemma ringOK_broadcast [simp]: "ringOK (broadcast s b) = ringOK s"
  by (simp add: ringOK_def)

lemma replayOrder_broadcast [simp]: "replayOrder (broadcast s b) = replayOrder s"
  by (simp add: replayOrder_def)

lemma appendWithWhen_ok:
  assumes "ringOK s"
  shows "\<exists>s'. appendWithWhen s w l = Some s' \<and> ringOK s' \<and>
           replayOrder s' = lastn (capacity s) (replayOrder s @ [Some (lineBytes w l)]) \<and>
           capacity s' = capacity s \<and> clients s' = clients s \<and>
           wire s' = wire s \<and> connClosed s' = connClosed s \<and> nextPtr s' = nextPtr s \<and>
           metaBuf s' = metaBuf s \<and>
           ring s' = (ring s)[head s := Some (lineBytes w l)] \<and>
           head s' = (head s + 1) mod capacity s \<and>
           (clients s = [] \<longrightarrow> store s' = store s)"
proof -
  from enqueue_ok [OF assms, of "lineBytes w l"] obtain s1 where
    e: "enqueue s (lineBytes w l) = Some s1" and
    p: "ringOK s1" "replayOrder s1 = lastn (capacity s) (replayOrder s @ [Some (lineBytes w l)])"
       "capacity s1 = capacity s" "clients s1 = clients s" "store s1 = store s"
       "wire s1 = wire s" "connClosed s1 = connClosed s" "nextPtr s1 = nextPtr s"
       "metaBuf s1 = metaBuf s" "ring s1 = (ring s)[head s := Some (lineBytes w l)]"
       "head s1 = (head s + 1) mod capacity s"
    by blast
  have "appendWithWhen s w l = Some (broadcast s1 (lineBytes w l))"
    using e by (simp add: appendWithWhen_def)
  moreover have "clients s = [] \<longrightarrow> store (broadcast s1 (lineBytes w l)) = store s"
    using p by (simp add: broadcast_no_clients)
  ultimately show ?thesis using p by simp
qed

lemma appendAll_ok:
  "ringOK s \<Longrightarrow>
   \<exists>s'. appendAll s xs = Some s' \<and> ringOK s' \<and>
        replayOrder s' = lastn (capacity s) (replayOrder s @ map Some (linesOf xs)) \<and>
        capacity s' = capacity s \<and> clients s' = clients s \<and>
        wire s' = wire s \<and> connClosed s' = connClosed s \<and> nextPtr s' = nextPtr s \<and>
        metaBuf s' = metaBuf s \<and> (clients s = [] \<longrightarrow> store s' = store s)"
proof (induction xs arbitrary: s)
  case Nil
  then show ?case by (simp add: linesOf_def lastn_all replayOrder_def)
next
  case (Cons x xs)
  obtain w l where x: "x = (w, l)" by (cases x)
  from appendWithWhen_ok [OF Cons.prems, of w l] obtain s1 where
    a: "appendWithWhen s w l = Some s1" and ok1: "ringOK s1" and
    r1: "replayOrder s1 = lastn (capacity s) (replayOrder s @ [Some (lineBytes w l)])" and
    f1: "capacity s1 = capacity s" "clients s1 = clients s" "wire s1 = wire s"
        "connClosed s1 = connClosed s" "nextPtr s1 = nextPtr s" "metaBuf s1 = metaBuf s"
        "clients s = [] \<longrightarrow> store s1 = store s"
    by blast
  from Cons.IH [OF ok1] obtain s' where
    b: "appendAll s1 xs = Some s'" and ok': "ringOK s'" and
    r': "replayOrder s' = lastn (capacity s1) (replayOrder s1 @ map Some (linesOf xs))" and
    f': "capacity s' = capacity s1" "clients s' = clients s1" "wire s' = wire s1"
        "connClosed s' = connClosed s1" "nextPtr s' = nextPtr s1" "metaBuf s' = metaBuf s1"
        "clients s1 = [] \<longrightarrow> store s' = store s1"
    by blast
  have "replayOrder s' = lastn (capacity s) (replayOrder s @ map Some (linesOf (x # xs)))"
    using r' r1 f1(1) by (simp add: lastn_lastn_append linesOf_def x)
  moreover have "appendAll s (x # xs) = Some s'" using a b by (simp add: x)
  ultimately show ?case using ok' f1 f' by simp
qed

lemma NewBroker_ringOK: "ringOK (NewBroker opts)"
  by (simp add: ringOK_def NewBroker_def Let_def EffectiveMaxLines_def DefaultMaxLines_def)

lemma NewBroker_replayOrder:
  "replayOrder (NewBroker opts) = replicate (capacity (NewBroker opts)) None"
proof -
  have "length (ring (NewBroker opts)) = capacity (NewBroker opts)"
    using NewBroker_ringOK by (simp add: ringOK_def)
  moreover have "ring (NewBroker opts) = replicate (capacity (NewBroker opts)) None"
        "head (NewBroker opts) = 0"
    by (simp_all add: NewBroker_def Let_def)
  ultimately show ?thesis by (simp add: replayOrder_rotate)
qed

lemma NewBroker_fields [simp]:
  "clients (NewBroker opts) = []" "nextPtr (NewBroker opts) = 0"
  "wire (NewBroker opts) = (\<lambda>_. [])" "store (NewBroker opts) = (\<lambda>_. None)"
  "connClosed (NewBroker opts) = (\<lambda>_. False)"
  by (simp_all add: NewBroker_def Let_def)

lemma map_filter_id_Some [simp]: "List.map_filter id (map Some xs) = xs"
  by (induction xs) (simp_all add: List.map_filter_simps)

lemma map_filter_id_None [simp]: "List.map_filter id (replicate n None) = []"
  by (induction n) (simp_all add: List.map_filter_simps)

lemma map_filter_append: "List.map_filter f (xs @ ys) = List.map_filter f xs @ List.map_filter f ys"
  by (simp add: List.map_filter_def)

lemma lastn_fill:
  "List.map_filter id (lastn c (replicate c None @ map Some bs)) = lastn c bs"
proof -
  have "lastn c (replicate c None @ map Some bs) =
          replicate (c - length bs) None @ map Some (drop (length bs - c) bs)"
    by (simp add: lastn_def drop_map)
  then show ?thesis by (simp add: map_filter_append lastn_def)
qed

lemma history_appendAll:
  "\<exists>s. appendAll (NewBroker opts) xs = Some s \<and> ringOK s \<and>
       history s = lastn (capacity (NewBroker opts)) (linesOf xs) \<and>
       capacity s = capacity (NewBroker opts) \<and> clients s = [] \<and> nextPtr s = 0 \<and>
       wire s = (\<lambda>_. []) \<and> store s = (\<lambda>_. None) \<and> metaBuf s = metaBuf (NewBroker opts)"
proof -
  from appendAll_ok [OF NewBroker_ringOK, of opts xs] obtain s where
    "appendAll (NewBroker opts) xs = Some s" "ringOK s"
    "replayOrder s = lastn (capacity (NewBroker opts))
        (replayOrder (NewBroker opts) @ map Some (linesOf xs))"
    "capacity s = capacity (NewBroker opts)" "clients s = clients (NewBroker opts)"
    "wire s = wire (NewBroker opts)" "nextPtr s = nextPtr (NewBroker opts)"
    "metaBuf s = metaBuf (NewBroker opts)"
    "clients (NewBroker opts) = [] \<longrightarrow> store s = store (NewBroker opts)"
    by blast
  then show ?thesis
    by (simp add: history_def NewBroker_replayOrder lastn_fill)
qed

section \<open>Lemmas about sessions\<close>

lemma drain_True:
  "store s p = Some cli \<Longrightarrow>
   drain s p (replicate n True) =
     s\<lparr>store := (store s)(p \<mapsto> cli\<lparr>ch := drop n (ch cli)\<rparr>),
       wire := (wire s)(conn cli := wire s (conn cli) @ take n (ch cli))\<rparr>"
proof (induction n arbitrary: s cli)
  case 0
  then show ?case by (simp add: drain_def fun_upd_idem)
next
  case (Suc n)
  show ?case
  proof (cases "ch cli")
    case Nil
    then have "drainStep s p True = s" using Suc.prems by (simp add: drainStep_def)
    then have "drain s p (replicate (Suc n) True) = drain s p (replicate n True)"
      by (simp add: drain_def)
    then show ?thesis using Suc.IH [OF Suc.prems] Nil by simp
  next
    case (Cons m rest)
    let ?s1 = "s\<lparr>store := (store s)(p \<mapsto> cli\<lparr>ch := rest\<rparr>),
                  wire := (wire s)(conn cli := wire s (conn cli) @ [m])\<rparr>"
    have e1: "drop (Suc n) (ch cli) = drop n rest" "take (Suc n) (ch cli) = m # take n rest"
      using Cons by simp_all
    have st: "drainStep s p True = ?s1"
      using Suc.prems Cons by (simp add: drainStep_def Let_def)
    have "drain s p (replicate (Suc n) True) = drain ?s1 p (replicate n True)"
      by (simp add: drain_def st)
    also have "\<dots> = ?s1\<lparr>store := (store ?s1)(p \<mapsto> (cli\<lparr>ch := rest\<rparr>)\<lparr>ch := drop n (ch (cli\<lparr>ch := rest\<rparr>))\<rparr>),
       wire := (wire ?s1)(conn (cli\<lparr>ch := rest\<rparr>) := wire ?s1 (conn (cli\<lparr>ch := rest\<rparr>)) @ take n (ch (cli\<lparr>ch := rest\<rparr>)))\<rparr>"
      by (rule Suc.IH) simp
    also have "\<dots> = s\<lparr>store := (store s)(p \<mapsto> cli\<lparr>ch := drop n rest\<rparr>),
         wire := (wire s)(conn cli := wire s (conn cli) @ m # take n rest)\<rparr>"
      by simp
    finally show ?thesis unfolding e1 .
  qed
qed

lemma client_ch_update: "(cli::client)\<lparr>ch := q\<rparr> = \<lparr>conn = conn cli, ch = q\<rparr>"
  by (cases cli) simp

lemma sendMeta_eq:
  "store s p = Some cli \<Longrightarrow>
   sendMeta s p = (s\<lparr>store := (store s)(p \<mapsto> fst (safeSend cli (metaBuf s)))\<rparr>, None)"
  by (simp add: sendMeta_def safeSend_def)

lemma sessionStart_eq:
  assumes "ringOK s" "store s p = Some cli"
  shows "sessionStart s p =
           Some (s\<lparr>store := (store s)(p \<mapsto> sendAll cli (metaBuf s # history s))\<rparr>)"
proof -
  let ?s1 = "s\<lparr>store := (store s)(p \<mapsto> fst (safeSend cli (metaBuf s)))\<rparr>"
  have ok: "ringOK ?s1" using assms(1) by (simp add: ringOK_def)
  have h: "history ?s1 = history s" by (simp add: history_def replayOrder_def)
  have "sessionStart s p = replay ?s1 p"
    using assms(2) by (simp add: sessionStart_def sendMeta_eq)
  also have "\<dots> = Some (?s1\<lparr>store := (store ?s1)(p \<mapsto> sendAll (fst (safeSend cli (metaBuf s))) (history ?s1))\<rparr>)"
    by (rule replay_eq [OF ok]) simp
  finally show ?thesis by (simp add: h sendAll_def)
qed

lemma connectSession_eq:
  assumes "ringOK s" "length (clients s) < maxClients"
  shows "\<exists>s'. connectSession s c n = Some s' \<and>
           wire s' = (wire s)(c := wire s c @ take n (lastn chanCap (metaBuf s # history s))) \<and>
           store s' = (store s)(nextPtr s \<mapsto>
              \<lparr>conn = c, ch = drop n (lastn chanCap (metaBuf s # history s))\<rparr>) \<and>
           clients s' = List.insert (nextPtr s) (clients s) \<and> ringOK s' \<and>
           connClosed s' = connClosed s"
proof -
  let ?p = "nextPtr s"
  let ?cli = "\<lparr>conn = c, ch = []\<rparr>"
  let ?s1 = "s\<lparr>store := (store s)(?p \<mapsto> ?cli), nextPtr := Suc ?p,
                clients := List.insert ?p (clients s)\<rparr>"
  have h: "handleNewClient s c = (?s1, Some ?p)"
    using assms(2) by (simp add: handleNewClient_def Let_def)
  have ok1: "ringOK ?s1" using assms(1) by (simp add: ringOK_def)
  have hi: "history ?s1 = history s" by (simp add: history_def replayOrder_def)
  let ?c2 = "sendAll ?cli (metaBuf s # history s)"
  let ?s2 = "?s1\<lparr>store := (store ?s1)(?p \<mapsto> ?c2)\<rparr>"
  have ss: "sessionStart ?s1 ?p = Some ?s2"
    using sessionStart_eq [OF ok1, of ?p ?cli] by (simp add: hi)
  have c2: "ch ?c2 = lastn chanCap (metaBuf s # history s)" "conn ?c2 = c"
    by (simp_all add: sendAll_ch)
  have "connectSession s c n = Some (drain ?s2 ?p (replicate n True))"
    by (simp add: connectSession_def h ss)
  also have "drain ?s2 ?p (replicate n True) =
      ?s2\<lparr>store := (store ?s2)(?p \<mapsto> ?c2\<lparr>ch := drop n (ch ?c2)\<rparr>),
       wire := (wire ?s2)(conn ?c2 := wire ?s2 (conn ?c2) @ take n (ch ?c2))\<rparr>"
    by (rule drain_True) simp
  finally show ?thesis using assms(1) c2 by (simp add: ringOK_def client_ch_update)
qed

section \<open>Level derivation\<close>

text \<open>
  Claim C8. \<open>LevelOf s\<close> is \<open>error\<close> exactly when \<open>s\<close> starts with the literal prefix
  \<open>ERROR: \<close>, and \<open>info\<close> otherwise; the three examples of the specification evaluate as
  stated.
\<close>

theorem LevelOf_prefix:
  "(LevelOf s = ''error'') = prefix ''ERROR: '' s \<and>
   (LevelOf s = ''info'') = (\<not> prefix ''ERROR: '' s) \<and>
   LevelOf ''ERROR: disk full'' = ''error'' \<and>
   LevelOf ''disk full'' = ''info'' \<and>
   LevelOf '''' = ''info''"
  by (simp add: LevelOf_def)

section \<open>Capacity\<close>

text \<open>
  Claim C7. The ring of a new broker has as many slots as the configured maximum when
  that is positive and 10000 otherwise; the capacity field, the recorded maximum and the
  \<open>max_lines\<close> field of the meta record all carry that number.
\<close>

theorem NewBroker_capacity:
  "int (capacity (NewBroker opts)) =
     (if 0 < MaxLines (opt_Config opts) then MaxLines (opt_Config opts) else 10000) \<and>
   length (ring (NewBroker opts)) = capacity (NewBroker opts) \<and>
   maxLines (NewBroker opts) = int (capacity (NewBroker opts)) \<and>
   (\<exists>m. metaBuf (NewBroker opts) = MetaBytes m \<and> meta_Type m = ''meta'' \<and>
        meta_MaxLines m = int (capacity (NewBroker opts)))"
  by (simp add: NewBroker_def Let_def EffectiveMaxLines_def DefaultMaxLines_def MakeMeta_def)

end
